theory Spec2Isabelle
  imports Main
begin

section \<open>Python string primitives used by \<open>logic.py\<close>\<close>

text \<open>
  A Python string is modelled as a list of \<open>char\<close>, each read as a code point from
  U+0000 to U+00FF; on these strings the \<open>str\<close> methods and built-ins used by the
  program behave as defined here.  Python integers are unbounded and modelled as
  \<open>int\<close>.  Memory is unbounded in the model: a string of any length can be built, and
  \<open>MemoryError\<close> is not represented.
\<close>

datatype py_error = ValueError string | OverflowError

text \<open>
  Where CPython converts an integer argument to an index-sized integer (the count of
  \<open>c * n\<close>, the width of \<open>str.zfill\<close>), it raises \<open>OverflowError\<close> outside the range
  from \<open>-2^63\<close> to \<open>2^63 - 1\<close> of a 64-bit interpreter.  An argument above the range
  asks for a string of more than \<open>sys.maxsize\<close> characters, which no memory holds; with
  the unbounded memory of the model that side is not represented.  An argument below the
  range asks for no character at all and the conversion raises all the same: this is
  the side the model keeps.
\<close>

definition index_sized :: "int \<Rightarrow> bool" where
  "index_sized n \<longleftrightarrow> - (2 ^ 63) \<le> n"

text \<open>
  \<open>str.isspace\<close> on the code points below U+0100, as used by \<open>str.strip()\<close> without
  argument.
\<close>

definition py_isspace :: "char \<Rightarrow> bool" where
  "py_isspace c \<longleftrightarrow>
     c \<in> set [CHR 0x09, CHR 0x0A, CHR 0x0B, CHR 0x0C, CHR 0x0D,
              CHR 0x1C, CHR 0x1D, CHR 0x1E, CHR 0x1F, CHR '' '', CHR 0x85, CHR 0xA0]"

definition strip :: "string \<Rightarrow> string" where
  "strip s = rev (dropWhile py_isspace (rev (dropWhile py_isspace s)))"

text \<open>
  \<open>str.lower\<close> on the code points below U+0100: the letters \<open>A\<close> to \<open>Z\<close> and the
  capital letters from U+00C0 to U+00DE (U+00D7, the multiplication sign, is none).
\<close>

definition lower_char :: "char \<Rightarrow> char" where
  "lower_char c =
     (case map_of
        (zip (''ABCDEFGHIJKLMNOPQRSTUVWXYZ'' @
       [CHR 0xC0, CHR 0xC1, CHR 0xC2, CHR 0xC3, CHR 0xC4, CHR 0xC5, CHR 0xC6, CHR 0xC7,
        CHR 0xC8, CHR 0xC9, CHR 0xCA, CHR 0xCB, CHR 0xCC, CHR 0xCD, CHR 0xCE, CHR 0xCF,
        CHR 0xD0, CHR 0xD1, CHR 0xD2, CHR 0xD3, CHR 0xD4, CHR 0xD5, CHR 0xD6, CHR 0xD8,
        CHR 0xD9, CHR 0xDA, CHR 0xDB, CHR 0xDC, CHR 0xDD, CHR 0xDE])
             (''abcdefghijklmnopqrstuvwxyz'' @
       [CHR 0xE0, CHR 0xE1, CHR 0xE2, CHR 0xE3, CHR 0xE4, CHR 0xE5, CHR 0xE6, CHR 0xE7,
        CHR 0xE8, CHR 0xE9, CHR 0xEA, CHR 0xEB, CHR 0xEC, CHR 0xED, CHR 0xEE, CHR 0xEF,
        CHR 0xF0, CHR 0xF1, CHR 0xF2, CHR 0xF3, CHR 0xF4, CHR 0xF5, CHR 0xF6, CHR 0xF8,
        CHR 0xF9, CHR 0xFA, CHR 0xFB, CHR 0xFC, CHR 0xFD, CHR 0xFE])) c of
        Some d \<Rightarrow> d
      | None \<Rightarrow> c)"

definition lower :: "string \<Rightarrow> string" where
  "lower s = map lower_char s"

definition startswith :: "string \<Rightarrow> string \<Rightarrow> bool" where
  "startswith s p \<longleftrightarrow> take (length p) s = p"

text \<open>
  \<open>c * n\<close> for a one-character string: the count is converted to an index-sized
  integer, and the result is empty when \<open>n \<le> 0\<close>.
\<close>

definition py_repeat :: "char \<Rightarrow> int \<Rightarrow> py_error + string" where
  "py_repeat c n = (if index_sized n then Inr (replicate (nat n) c) else Inl OverflowError)"

text \<open>
  \<open>str.zfill(width)\<close>: the width is converted to an index-sized integer; the string is
  unchanged when it is already long enough; otherwise zeros are inserted on the left,
  after a leading sign character if there is one (\<open>zfill_pad\<close>).
\<close>

definition zfill_pad :: "int \<Rightarrow> string \<Rightarrow> string" where
  "zfill_pad width s =
     (if width \<le> int (length s) then s
      else (case s of
              [] \<Rightarrow> replicate (nat width) CHR ''0''
            | c # cs \<Rightarrow>
                if c = CHR ''+'' \<or> c = CHR ''-''
                then c # replicate (nat (width - int (length s))) CHR ''0'' @ cs
                else replicate (nat (width - int (length s))) CHR ''0'' @ s))"

definition zfill :: "int \<Rightarrow> string \<Rightarrow> py_error + string" where
  "zfill width s = (if index_sized width then Inr (zfill_pad width s) else Inl OverflowError)"

text \<open>
  Slice bounds are clamped as Python does: a negative bound counts from the end,
  and every bound is cut to the range \<open>0 .. len\<close>, however large it is.  Slicing
  never raises.
\<close>

definition slice_index :: "nat \<Rightarrow> int \<Rightarrow> nat" where
  "slice_index n i = (if i < 0 then nat (max 0 (int n + i)) else min n (nat i))"

definition py_slice :: "string \<Rightarrow> int \<Rightarrow> int \<Rightarrow> string" where
  "py_slice s a b =
     (let lo = slice_index (length s) a; hi = slice_index (length s) b
      in take (hi - lo) (drop lo s))"

definition py_slice_from :: "string \<Rightarrow> int \<Rightarrow> string" where
  "py_slice_from s a = drop (slice_index (length s) a) s"

section \<open>Python built-ins: \<open>int(s, base)\<close>, \<open>bin\<close>, \<open>str.split\<close>, \<open>range\<close>\<close>

text \<open>
  \<open>int(s, base)\<close> on a string, for the two bases the program uses (10 and 16), after
  CPython's \<open>PyLong_FromString\<close>: leading whitespace, an optional sign, for base 16 an
  optional \<open>0x\<close>/\<open>0X\<close> prefix (one underscore may follow it), then digits with single
  underscores between them, then trailing whitespace.  Anything else is a
  \<open>ValueError\<close>.  The whitespace of \<open>int\<close> is that of C (tab to carriage return, and
  the space) and, beyond ASCII, that of Unicode, which is U+0085 and U+00A0 below
  U+0100; the characters U+001C to U+001F are whitespace for \<open>strip\<close> and not for
  \<open>int\<close>.  No code point from U+0080 to U+00FF is a decimal digit.  The interpreter's
  limit on the number of decimal digits (\<open>sys.set_int_max_str_digits\<close>) is a
  configuration of the interpreter and is not represented.
\<close>

definition int_isspace :: "char \<Rightarrow> bool" where
  "int_isspace c \<longleftrightarrow>
     c \<in> set [CHR 0x09, CHR 0x0A, CHR 0x0B, CHR 0x0C, CHR 0x0D, CHR '' '', CHR 0x85, CHR 0xA0]"

definition digit_value :: "char \<Rightarrow> nat option" where
  "digit_value c =
     map_of (zip ''0123456789abcdefABCDEF''
               [0, 1, 2, 3, 4, 5, 6, 7, 8, 9, 10, 11, 12, 13, 14, 15, 10, 11, 12, 13, 14, 15]) c"

definition is_digit :: "nat \<Rightarrow> char \<Rightarrow> bool" where
  "is_digit base c = (case digit_value c of Some d \<Rightarrow> d < base | None \<Rightarrow> False)"

text \<open>The value of a digit string; underscores are skipped, as the conversion loop does.\<close>

definition digits_value :: "nat \<Rightarrow> string \<Rightarrow> int" where
  "digits_value base ds =
     foldl (\<lambda>acc c. case digit_value c of
                       Some d \<Rightarrow> acc * int base + int d
                     | None \<Rightarrow> acc) 0 ds"

text \<open>The scan refuses two underscores in a row and a trailing underscore.\<close>

fun underscores_ok :: "char \<Rightarrow> string \<Rightarrow> bool" where
  "underscores_ok prev [] = (prev \<noteq> CHR ''_'')"
| "underscores_ok prev (c # cs) =
     (if c = CHR ''_'' \<and> prev = CHR ''_'' then False else underscores_ok c cs)"

definition py_int :: "nat \<Rightarrow> string \<Rightarrow> py_error + int" where
  "py_int base s =
     (let s1 = dropWhile int_isspace s;
          negative = (take 1 s1 = ''-'');
          s2 = (if take 1 s1 = ''+'' \<or> take 1 s1 = ''-'' then drop 1 s1 else s1);
          s3 = (if base = 16 \<and> (take 2 s2 = ''0x'' \<or> take 2 s2 = ''0X'')
                then (if take 1 (drop 2 s2) = ''_'' then drop 3 s2 else drop 2 s2)
                else s2);
          body = takeWhile (\<lambda>c. is_digit base c \<or> c = CHR ''_'') s3;
          rest = dropWhile (\<lambda>c. is_digit base c \<or> c = CHR ''_'') s3
      in if take 1 s3 = ''_'' \<or> body = [] \<or> \<not> underscores_ok CHR 0x00 body
            \<or> \<not> list_all int_isspace rest
         then Inl (ValueError ''invalid literal for int()'')
         else Inr ((if negative then - 1 else 1) * digits_value base body))"

text \<open>\<open>bin(n)\<close>: \<open>0b\<close> and the binary digits, with a minus sign in front when \<open>n < 0\<close>.\<close>

fun bin_digits :: "nat \<Rightarrow> string" where
  "bin_digits n =
     (if n < 2 then [if n = 0 then CHR ''0'' else CHR ''1'']
      else bin_digits (n div 2) @ [if n mod 2 = 0 then CHR ''0'' else CHR ''1''])"

declare bin_digits.simps [simp del]

definition py_bin :: "int \<Rightarrow> string" where
  "py_bin n = (if n < 0 then ''-0b'' @ bin_digits (nat (- n)) else ''0b'' @ bin_digits (nat n))"

text \<open>\<open>s.split(sep)\<close> for a one-character separator: always at least one piece.\<close>

fun py_split :: "char \<Rightarrow> string \<Rightarrow> string list" where
  "py_split sep [] = ['''']"
| "py_split sep (c # cs) =
     (if c = sep then [] # py_split sep cs
      else (case py_split sep cs of
              [] \<Rightarrow> [c # []]
            | p # ps \<Rightarrow> (c # p) # ps))"

text \<open>\<open>range(start, stop, step)\<close> as the list of its elements; step 0 raises.\<close>

definition py_range :: "int \<Rightarrow> int \<Rightarrow> int \<Rightarrow> py_error + int list" where
  "py_range start stop step =
     (if step = 0 then Inl (ValueError ''range() arg 3 must not be zero'')
      else
        (let n = (if 0 < step
                  then (if start < stop then (stop - start - 1) div step + 1 else 0)
                  else (if stop < start then (start - stop - 1) div (- step) + 1 else 0))
         in Inr (map (\<lambda>k. start + int k * step) [0..<nat n])))"

section \<open>\<open>logic.py\<close>\<close>

subsection \<open>Decoding and classifying a token\<close>

text \<open>
  \<open>hex_to_32bit_bin\<close>: \<open>hex_parse\<close> is the value of \<open>int(hex_str, 16)\<close> in the body of
  the \<open>try\<close>, or the exception raised before it is known.  Whatever is raised in the
  body, the \<open>except\<close> branch returns \<open>"0" * 32\<close>.
\<close>

definition hex_parse :: "string \<Rightarrow> py_error + int" where
  "hex_parse hex_val =
     (let hex_str = lower (strip hex_val);
          hex_str = (if startswith hex_str ''0x'' then py_slice_from hex_str 2 else hex_str)
      in case zfill 8 hex_str of
           Inl e \<Rightarrow> Inl e
         | Inr hex_str \<Rightarrow> py_int 16 hex_str)"

definition hex_to_32bit_bin :: "string \<Rightarrow> py_error + string" where
  "hex_to_32bit_bin hex_val =
     (case hex_parse hex_val of
        Inl e \<Rightarrow> py_repeat CHR ''0'' 32
      | Inr n \<Rightarrow>
          (case zfill 32 (py_slice_from (py_bin n) 2) of
             Inl e \<Rightarrow> py_repeat CHR ''0'' 32
           | Inr bits \<Rightarrow> Inr bits))"

text \<open>
  \<open>is_likely_binary\<close> and \<open>detect_bit_length\<close> use no operation that can raise.
\<close>

definition is_likely_binary :: "string \<Rightarrow> bool" where
  "is_likely_binary val =
     (let val_str = lower (strip val);
          val_str = (if startswith val_str ''0x'' then py_slice_from val_str 2 else val_str)
      in if \<not> list_all (\<lambda>c. c \<in> set ''0123456789abcdef'') val_str then False
         else if list_ex (\<lambda>c. c \<in> set ''23456789abcdef'') val_str then False
         else 8 < length val_str)"

definition detect_bit_length :: "string \<Rightarrow> int" where
  "detect_bit_length val =
     (let val_str = strip val
      in if is_likely_binary val_str then int (length val_str) else 32)"

subsection \<open>The slicer: \<open>slice_bits_custom\<close>\<close>

text \<open>
  One pass of the \<open>for\<close> loop of \<open>slice_bits_custom\<close> computes the field
  (\<open>slice_step\<close>); the loop passes its two local variables \<open>start\<close> and \<open>slices\<close> on
  as arguments and stops at the first exception.
\<close>

definition slice_step :: "string \<Rightarrow> int \<Rightarrow> int \<Rightarrow> py_error + string" where
  "slice_step bin_str start bits =
     (if int (length bin_str) \<le> start then py_repeat CHR ''0'' bits
      else if int (length bin_str) < start + bits then
        (let remaining = int (length bin_str) - start
         in case py_repeat CHR ''0'' (bits - remaining) of
              Inl e \<Rightarrow> Inl e
            | Inr zeros \<Rightarrow> Inr (py_slice_from bin_str start @ zeros))
      else zfill bits (py_slice bin_str start (start + bits)))"

fun slice_loop ::
  "string \<Rightarrow> int list \<Rightarrow> int \<Rightarrow> string list \<Rightarrow> py_error + string list" where
  "slice_loop bin_str [] start slices = Inr slices"
| "slice_loop bin_str (bits # rest) start slices =
     (case slice_step bin_str start bits of
        Inl e \<Rightarrow> Inl e
      | Inr slice_val \<Rightarrow> slice_loop bin_str rest (start + bits) (slices @ [slice_val]))"

definition slice_bits_custom :: "string \<Rightarrow> int list \<Rightarrow> py_error + string list" where
  "slice_bits_custom bin_str bit_assignments = slice_loop bin_str bit_assignments 0 []"

subsection \<open>Width-spec parsing: \<open>parse_bit_assignments\<close>\<close>

text \<open>
  \<open>parse_bit_assignments\<close>: the list comprehension converts the non-empty trimmed
  pieces from left to right and stops at the first \<open>ValueError\<close>, which the handler
  replaces by one with the program's own message.
\<close>

fun parse_parts :: "string list \<Rightarrow> py_error + int list" where
  "parse_parts [] = Inr []"
| "parse_parts (p # parts) =
     (if strip p \<noteq> [] then
        (case py_int 10 (strip p) of
           Inl e \<Rightarrow> Inl e
         | Inr n \<Rightarrow> (case parse_parts parts of Inl e \<Rightarrow> Inl e | Inr ns \<Rightarrow> Inr (n # ns)))
      else parse_parts parts)"

definition parse_bit_assignments :: "string \<Rightarrow> py_error + int list" where
  "parse_bit_assignments assignment_str =
     (case parse_parts (py_split CHR '','' (strip assignment_str)) of
        Inl (ValueError m) \<Rightarrow>
          Inl (ValueError ''Invalid bit assignments. Please use comma-separated integers.'')
      | Inl OverflowError \<Rightarrow> Inl OverflowError
      | Inr ns \<Rightarrow> Inr ns)"

section \<open>\<open>main.py\<close>: planning the widths and processing a column\<close>

text \<open>
  \<open>get_bit_assignments\<close>, with the widgets it reads as arguments: whether the uniform
  mode is checked, the value of the slice-size spin box, the current bit length and the
  text of the custom input.  In the custom mode a \<open>ValueError\<close> is shown to the user and
  the method returns \<open>None\<close>.
\<close>

definition get_bit_assignments ::
  "bool \<Rightarrow> int \<Rightarrow> int \<Rightarrow> string \<Rightarrow> py_error + int list option" where
  "get_bit_assignments uniform slice_size bit_length text =
     (if uniform then
        (case py_range 0 bit_length slice_size of
           Inl e \<Rightarrow> Inl e
         | Inr is \<Rightarrow> Inr (Some (map (\<lambda>i. min slice_size (bit_length - i)) is)))
      else
        (case parse_bit_assignments text of
           Inl (ValueError m) \<Rightarrow> Inr None
         | Inl OverflowError \<Rightarrow> Inl OverflowError
         | Inr assignments \<Rightarrow> Inr (Some assignments)))"

text \<open>
  \<open>get_current_bit_length\<close> over the cells of the selected column; a cell is \<open>None\<close>
  when \<open>pd.notna\<close> is false for it.  The first argument says whether the column is in
  \<open>binary_columns\<close>.
\<close>

fun get_current_bit_length :: "bool \<Rightarrow> string option list \<Rightarrow> int" where
  "get_current_bit_length in_binary_columns [] = 32"
| "get_current_bit_length in_binary_columns (None # vals) =
     get_current_bit_length in_binary_columns vals"
| "get_current_bit_length in_binary_columns (Some val # vals) =
     (let val_str = strip val
      in if in_binary_columns then int (length val_str)
         else if is_likely_binary val_str then int (length val_str)
         else 32)"

text \<open>
  The body of the row loop of \<open>process_column\<close> for one cell, and the loop itself,
  which an exception leaves at once.  A cell is \<open>None\<close> when \<open>pd.notna\<close> is false for
  it as the loop reads it, that is after the conversion of the column at the head of the
  method, which is pandas' and is not modelled.  The diagnostic prints have no effect on
  the result.
\<close>

definition process_value ::
  "bool \<Rightarrow> int \<Rightarrow> int list \<Rightarrow> string option \<Rightarrow> py_error + string list" where
  "process_value in_binary_columns expected_bits bit_assignments val =
     (case val of
        Some v \<Rightarrow>
          (let val_str = strip v
           in case (if in_binary_columns then zfill expected_bits val_str
                    else if is_likely_binary val_str then zfill expected_bits val_str
                    else hex_to_32bit_bin val_str) of
                Inl e \<Rightarrow> Inl e
              | Inr bin_str \<Rightarrow> slice_bits_custom bin_str bit_assignments)
      | None \<Rightarrow> Inr (replicate (length bit_assignments) []))"

fun process_rows ::
  "bool \<Rightarrow> int \<Rightarrow> int list \<Rightarrow> string option list \<Rightarrow> py_error + string list list" where
  "process_rows in_binary_columns expected_bits bit_assignments [] = Inr []"
| "process_rows in_binary_columns expected_bits bit_assignments (val # vals) =
     (case process_value in_binary_columns expected_bits bit_assignments val of
        Inl e \<Rightarrow> Inl e
      | Inr sliced \<Rightarrow>
          (case process_rows in_binary_columns expected_bits bit_assignments vals of
             Inl e \<Rightarrow> Inl e
           | Inr new_rows \<Rightarrow> Inr (sliced # new_rows)))"

section \<open>The specification's own notions\<close>

text \<open>
  The Slicer of the specification (section 4.5), in its own words: the field of width
  \<open>w\<close> with the cursor at \<open>start\<close>.
\<close>

definition slicer_field_spec :: "string \<Rightarrow> nat \<Rightarrow> nat \<Rightarrow> string" where
  "slicer_field_spec bit_word start w =
     (if length bit_word \<le> start then replicate w CHR ''0''
      else if length bit_word < start + w then
        drop start bit_word @ replicate (w - length (drop start bit_word)) CHR ''0''
      else take w (drop start bit_word))"

text \<open>
  The token as the specification reads it: trimmed, in lower case, without a leading
  \<open>0x\<close>.
\<close>

definition spec_digits :: "string \<Rightarrow> string" where
  "spec_digits token =
     (let t = lower (strip token) in if startswith t ''0x'' then drop 2 t else t)"

text \<open>
  The Classifier as the specification words it (section 4.1): three classes, where the
  program's \<open>is_likely_binary\<close> only answers whether the class is \<open>Binary\<close>.
\<close>

datatype classification = Hex | Binary | Invalid

definition classify_spec :: "string \<Rightarrow> classification" where
  "classify_spec token =
     (if list_ex (\<lambda>c. c \<notin> set ''0123456789abcdef'') (spec_digits token) then Invalid
      else if list_ex (\<lambda>c. c \<in> set ''23456789abcdef'') (spec_digits token) then Hex
      else if length (spec_digits token) \<le> 8 then Hex
      else Binary)"

text \<open>
  Width-spec parsing as the specification words it (section 4.4): the pieces are the
  spec string split on commas, each piece trimmed, the empty ones discarded.  A piece is
  a valid integer when \<open>int\<close> accepts it, and then has a value.
\<close>

definition spec_pieces :: "string \<Rightarrow> string list" where
  "spec_pieces spec = filter (\<lambda>p. p \<noteq> []) (map strip (py_split CHR '','' spec))"

definition valid_integer :: "string \<Rightarrow> bool" where
  "valid_integer piece = (case py_int 10 piece of Inl e \<Rightarrow> False | Inr n \<Rightarrow> True)"

definition integer_of :: "string \<Rightarrow> int" where
  "integer_of piece = (case py_int 10 piece of Inl e \<Rightarrow> 0 | Inr n \<Rightarrow> n)"

text \<open>
  The characters a string accepted by \<open>int(s, 16)\<close> can hold: hexadecimal digits,
  signs, underscores, the \<open>x\<close> of the prefix and the whitespace of \<open>int\<close>.
\<close>

definition int16_char :: "char \<Rightarrow> bool" where
  "int16_char c \<longleftrightarrow> is_digit 16 c \<or> c \<in> set ''+-_xX'' \<or> int_isspace c"

text \<open>
  The value of a bit word read as a binary numeral, most significant bit first.
\<close>

definition bits_value :: "string \<Rightarrow> nat" where
  "bits_value bit_word = foldl (\<lambda>acc c. 2 * acc + (if c = CHR ''1'' then 1 else 0)) 0 bit_word"

section \<open>Auxiliary notions for the proofs\<close>

text \<open>
  The field one pass of the loop computes when no conversion fails, and the fields of
  the passes from a cursor on.
\<close>

definition field_at :: "string \<Rightarrow> int \<Rightarrow> int \<Rightarrow> string" where
  "field_at bin_str start bits =
     (if int (length bin_str) \<le> start then replicate (nat bits) CHR ''0''
      else if int (length bin_str) < start + bits then
        py_slice_from bin_str start
          @ replicate (nat (bits - (int (length bin_str) - start))) CHR ''0''
      else zfill_pad bits (py_slice bin_str start (start + bits)))"

fun fields_from :: "string \<Rightarrow> int \<Rightarrow> int list \<Rightarrow> string list" where
  "fields_from bin_str start [] = []"
| "fields_from bin_str start (bits # rest) =
     field_at bin_str start bits # fields_from bin_str (start + bits) rest"

section \<open>Properties of the string primitives\<close>

lemma strip_no_space:
  assumes "\<forall>c\<in>set s. \<not> py_isspace c"
  shows "strip s = s"
proof -
  have d: "\<And>xs. \<forall>c\<in>set xs. \<not> py_isspace c \<Longrightarrow> dropWhile py_isspace xs = xs"
    by (case_tac xs) simp_all
  show ?thesis using assms by (simp add: strip_def d)
qed

lemma strip_bits: "set token \<subseteq> {CHR ''0'', CHR ''1''} \<Longrightarrow> strip token = token"
  by (rule strip_no_space) (auto simp: py_isspace_def)

lemma strip_strip: "strip (strip s) = strip s"
proof -
  define P where "P = py_isspace"
  define t where "t = dropWhile P s"
  define u where "u = dropWhile P (rev t)"
  have t: "dropWhile P t = t" by (simp add: t_def)
  have u: "dropWhile P u = u" by (simp add: u_def)
  obtain v where v: "rev t = v @ u"
    unfolding u_def by (metis takeWhile_dropWhile_id)
  have "dropWhile P (rev u) = rev u"
  proof (cases "rev u")
    case Nil then show ?thesis by simp
  next
    case (Cons b bs)
    from v have tt: "t = rev u @ rev v" by (metis rev_append rev_rev_ident)
    with Cons t have "\<not> P b" by (metis append_Cons dropWhile_eq_Cons_conv)
    with Cons show ?thesis by simp
  qed
  then show ?thesis
    by (simp add: strip_def u t flip: P_def t_def u_def)
qed

lemma strip_prepend_ws:
  assumes "\<forall>x\<in>set l. py_isspace x"
  shows "strip (l @ p) = strip p"
proof -
  have "dropWhile py_isspace (l @ p) = dropWhile py_isspace p"
    using assms by (intro dropWhile_append2) simp
  then show ?thesis by (simp add: strip_def)
qed

lemma strip_append_ws:
  assumes "\<forall>x\<in>set r. py_isspace x"
  shows "strip (p @ r) = strip p"
proof (cases "\<forall>x\<in>set p. py_isspace x")
  case True
  with assms have e: "dropWhile py_isspace (p @ r) = []" "dropWhile py_isspace p = []"
    by auto
  show ?thesis by (simp only: strip_def e)
next
  case False
  then obtain x where "x \<in> set p" "\<not> py_isspace x" by blast
  then have "dropWhile py_isspace (p @ r) = dropWhile py_isspace p @ r"
    by (rule dropWhile_append1)
  moreover have "dropWhile py_isspace (rev r @ ys) = dropWhile py_isspace ys" for ys
    using assms by (intro dropWhile_append2) simp
  ultimately show ?thesis by (simp add: strip_def)
qed

lemma strip_decomp:
  "\<exists>l r. s = l @ strip s @ r \<and> (\<forall>x\<in>set l. py_isspace x) \<and> (\<forall>x\<in>set r. py_isspace x)"
proof -
  define t where "t = dropWhile py_isspace s"
  have "s = takeWhile py_isspace s @ t" by (simp add: t_def)
  moreover have "rev t = takeWhile py_isspace (rev t) @ dropWhile py_isspace (rev t)" by simp
  then have "t = rev (dropWhile py_isspace (rev t)) @ rev (takeWhile py_isspace (rev t))"
    by (metis rev_append rev_rev_ident)
  then have "t = strip s @ rev (takeWhile py_isspace (rev t))"
    by (simp add: strip_def t_def)
  ultimately have "s = takeWhile py_isspace s @ strip s @ rev (takeWhile py_isspace (rev t))"
    by simp
  moreover have "\<forall>x\<in>set (takeWhile py_isspace s). py_isspace x"
    by (auto dest: set_takeWhileD)
  moreover have "\<forall>x\<in>set (rev (takeWhile py_isspace (rev t))). py_isspace x"
    by (auto dest: set_takeWhileD)
  ultimately show ?thesis by blast
qed

lemma index_sized_nonneg: "0 \<le> n \<Longrightarrow> index_sized n"
  by (simp add: index_sized_def)

lemma zfill_Inr: "index_sized width \<Longrightarrow> zfill width s = Inr (zfill_pad width s)"
  by (simp add: zfill_def)

lemma py_repeat_Inr: "index_sized n \<Longrightarrow> py_repeat c n = Inr (replicate (nat n) c)"
  by (simp add: py_repeat_def)

lemma zfill_pad_id: "width \<le> int (length s) \<Longrightarrow> zfill_pad width s = s"
  by (simp add: zfill_pad_def)

lemma set_zfill_pad: "set s \<subseteq> set (zfill_pad width s)"
  by (auto simp: zfill_pad_def split: list.splits)

lemma zfill_pad_bits:
  assumes "xs \<noteq> []" and "set xs \<subseteq> {CHR ''0'', CHR ''1''}"
  shows "zfill_pad width xs = replicate (nat width - length xs) CHR ''0'' @ xs"
proof (cases xs)
  case Nil
  with assms show ?thesis by simp
next
  case (Cons c cs)
  with assms(2) have "c \<noteq> CHR ''+''" "c \<noteq> CHR ''-''" by auto
  with Cons show ?thesis
    by (auto simp: zfill_pad_def nat_diff_distrib)
qed

lemma py_slice_from_nonneg: "0 \<le> a \<Longrightarrow> py_slice_from s a = drop (nat a) s"
  by (simp add: py_slice_from_def slice_index_def min_def)

lemma py_slice_from_2: "py_slice_from s 2 = drop 2 s"
  by (simp add: py_slice_from_nonneg)

lemma py_split_not_Nil: "py_split c s \<noteq> []"
  by (induction s) (auto split: list.splits)

lemma py_split_no_sep: "c \<notin> set s \<Longrightarrow> py_split c s = [s]"
  by (induction s) auto

lemma py_split_prepend:
  "c \<notin> set a \<Longrightarrow> py_split c (a @ b) = (a @ hd (py_split c b)) # tl (py_split c b)"
proof (induction a)
  case Nil
  then show ?case using py_split_not_Nil [of c b] by simp
next
  case (Cons x a)
  then show ?case by auto
qed

lemma py_split_append:
  "c \<notin> set r \<Longrightarrow>
   py_split c (b @ r) = butlast (py_split c b) @ [last (py_split c b) @ r]"
proof (induction b)
  case Nil
  then show ?case by (simp add: py_split_no_sep)
next
  case (Cons x b)
  obtain p ps where P: "py_split c b = p # ps"
    using py_split_not_Nil [of c b] by (cases "py_split c b") auto
  show ?case
  proof (cases "x = c")
    case True
    with Cons P show ?thesis by simp
  next
    case False
    with Cons P show ?thesis by (cases ps) auto
  qed
qed

lemma comma_not_space: "\<not> py_isspace CHR '',''"
  by (simp add: py_isspace_def)

text \<open>Trimming the whole string first does not change the trimmed pieces.\<close>

lemma map_strip_split_strip:
  "map strip (py_split CHR '','' (strip s)) = map strip (py_split CHR '','' s)"
proof -
  obtain l r where s: "s = l @ strip s @ r"
    and l: "\<forall>x\<in>set l. py_isspace x" and r: "\<forall>x\<in>set r. py_isspace x"
    using strip_decomp by blast
  let ?c = "CHR '',''"
  let ?P = "py_split ?c (strip s)"
  let ?P' = "py_split ?c (strip s @ r)"
  have cl: "?c \<notin> set l" and cr: "?c \<notin> set r" using l r comma_not_space by auto
  have P': "?P' = butlast ?P @ [last ?P @ r]" using cr by (rule py_split_append)
  have "map strip ?P' = map strip (butlast ?P @ [last ?P])"
    by (simp add: P' strip_append_ws [OF r])
  then have a: "map strip ?P' = map strip ?P"
    by (simp add: py_split_not_Nil)
  have "py_split ?c (l @ strip s @ r) = (l @ hd ?P') # tl ?P'"
    using cl by (rule py_split_prepend)
  then have "map strip (py_split ?c (l @ strip s @ r)) = strip (hd ?P') # map strip (tl ?P')"
    by (simp add: strip_prepend_ws [OF l])
  also have "\<dots> = map strip ?P'"
    using py_split_not_Nil [of ?c "strip s @ r"] by (cases ?P') simp_all
  finally show ?thesis using a s by simp
qed

lemma in_set_dropWhile_keep: "c \<in> set s \<Longrightarrow> \<not> P c \<Longrightarrow> c \<in> set (dropWhile P s)"
  by (induction s) auto

lemma in_set_drop_take:
  "c \<in> set s \<Longrightarrow> c \<notin> set (take k s) \<Longrightarrow> c \<in> set (drop k s)"
  by (metis Un_iff append_take_drop_id set_append)

lemma is_digit_16_0: "is_digit 16 CHR ''0''"
  by (simp add: is_digit_def digit_value_def)

lemma py_int_16_rejects:
  assumes c: "c \<in> set s" and bad: "\<not> int16_char c"
  shows "\<exists>e. py_int 16 s = Inl e"
proof -
  from bad have nd: "\<not> is_digit 16 c" and ns: "\<not> int_isspace c"
    and ne: "c \<noteq> CHR ''+''" "c \<noteq> CHR ''-''" "c \<noteq> CHR ''_''" "c \<noteq> CHR ''x''" "c \<noteq> CHR ''X''"
    by (auto simp: int16_char_def)
  from nd is_digit_16_0 have n0: "c \<noteq> CHR ''0''" by auto
  define s1 where "s1 = dropWhile int_isspace s"
  define s2 where "s2 = (if take 1 s1 = ''+'' \<or> take 1 s1 = ''-'' then drop 1 s1 else s1)"
  define s3 where "s3 = (if (16::nat) = 16 \<and> (take 2 s2 = ''0x'' \<or> take 2 s2 = ''0X'')
                then (if take 1 (drop 2 s2) = ''_'' then drop 3 s2 else drop 2 s2)
                else s2)"
  define Q where "Q = (\<lambda>c. is_digit 16 c \<or> c = CHR ''_'')"
  have c1: "c \<in> set s1" unfolding s1_def using c ns by (rule in_set_dropWhile_keep)
  have c2: "c \<in> set s2"
    unfolding s2_def using c1 ne by (auto intro!: in_set_drop_take)
  have t3: "take 3 s2 = take 2 s2 @ take 1 (drop 2 s2)"
    by (metis numeral_3_eq_3 numeral_2_eq_2 One_nat_def add_2_eq_Suc' plus_1_eq_Suc take_add add.commute)
  have c3: "c \<in> set s3"
    unfolding s3_def using c2 ne n0 by (auto intro!: in_set_drop_take simp: t3)
  have "\<not> Q c" using nd ne by (simp add: Q_def)
  then have "c \<notin> set (takeWhile Q s3)" by (auto dest: set_takeWhileD)
  with c3 have "c \<in> set (dropWhile Q s3)"
    by (metis Un_iff set_append takeWhile_dropWhile_id)
  with ns have "\<not> list_all int_isspace (dropWhile Q s3)"
    by (auto simp: list_all_iff)
  moreover have "py_int 16 s =
      (if take 1 s3 = ''_'' \<or> takeWhile Q s3 = [] \<or> \<not> underscores_ok CHR 0x00 (takeWhile Q s3)
            \<or> \<not> list_all int_isspace (dropWhile Q s3)
       then Inl (ValueError ''invalid literal for int()'')
       else Inr ((if take 1 s1 = ''-'' then - 1 else 1) * digits_value 16 (takeWhile Q s3)))"
    unfolding py_int_def Let_def s3_def s2_def s1_def Q_def by (rule refl)
  ultimately show ?thesis by simp
qed

lemma py_int_error: "py_int base s = Inl e \<Longrightarrow> e = ValueError ''invalid literal for int()''"
  by (auto simp: py_int_def Let_def split: if_splits)

lemma py_range_pos:
  assumes "1 \<le> step"
  shows "\<exists>is. py_range 0 stop step = Inr is \<and> (\<forall>i\<in>set is. 0 \<le> i \<and> i < stop)"
proof (cases "0 < stop")
  case False
  with assms show ?thesis by (simp add: py_range_def)
next
  case True
  let ?n = "(stop - 1) div step + 1"
  have r: "py_range 0 stop step = Inr (map (\<lambda>k. int k * step) [0..<nat ?n])"
    using assms True by (simp add: py_range_def)
  have "int k * step < stop" if "k < nat ?n" for k
  proof -
    from that have "int k \<le> (stop - 1) div step" by linarith
    then have "int k * step \<le> (stop - 1) div step * step"
      using assms by (intro mult_right_mono) simp_all
    also have "\<dots> \<le> stop - 1"
      using div_mult_mod_eq [of "stop - 1" step] pos_mod_sign [of step "stop - 1"] assms
      by linarith
    finally show ?thesis by simp
  qed
  moreover have "0 \<le> int k * step" for k using assms by simp
  ultimately show ?thesis using r by auto
qed

lemma bits_value_snoc:
  "bits_value (xs @ [c]) = 2 * bits_value xs + (if c = CHR ''1'' then 1 else 0)"
  by (simp add: bits_value_def)

lemma bits_value_bin_digits: "bits_value (bin_digits n) = n"
proof (induction n rule: bin_digits.induct)
  case (1 n)
  show ?case
  proof (cases "n < 2")
    case True
    then have "n = 0 \<or> n = 1" by auto
    then show ?thesis by (auto simp: bin_digits.simps [of n] bits_value_def)
  next
    case False
    with 1 have "bits_value (bin_digits (n div 2)) = n div 2" by simp
    with False show ?thesis
      by (subst bin_digits.simps) (simp add: bits_value_snoc, presburger)
  qed
qed

lemma set_bin_digits: "set (bin_digits n) \<subseteq> {CHR ''0'', CHR ''1''}"
proof (induction n rule: bin_digits.induct)
  case (1 n)
  then show ?case by (subst bin_digits.simps) auto
qed

lemma bin_digits_not_Nil: "bin_digits n \<noteq> []"
  by (subst bin_digits.simps) simp

lemma bits_value_less: "bits_value xs < 2 ^ length xs"
proof (induction xs rule: rev_induct)
  case Nil
  show ?case by (simp add: bits_value_def)
next
  case (snoc c xs)
  then show ?case by (simp add: bits_value_snoc)
qed

lemma bits_value_zeros: "bits_value (replicate k CHR ''0'' @ xs) = bits_value xs"
proof -
  have "\<And>acc::nat. acc = 0 \<Longrightarrow>
      foldl (\<lambda>acc c. 2 * acc + (if c = CHR ''1'' then 1 else 0)) acc (replicate k CHR ''0'') = 0"
    by (induction k) simp_all
  then show ?thesis by (simp add: bits_value_def)
qed

section \<open>Properties of the slicer\<close>

text \<open>
  One pass of the loop raises exactly when the width is not index-sized; otherwise it
  returns the field.
\<close>

lemma slice_step_Inr:
  assumes "index_sized bits"
  shows "slice_step bw start bits = Inr (field_at bw start bits)"
proof -
  have "index_sized (bits - (int (length bw) - start))"
    if "\<not> int (length bw) \<le> start" and "int (length bw) < start + bits"
    using that by (intro index_sized_nonneg) simp
  then show ?thesis
    using assms by (auto simp: slice_step_def field_at_def py_repeat_Inr zfill_Inr Let_def)
qed

lemma slice_step_Inl:
  assumes "\<not> index_sized bits"
  shows "slice_step bw start bits = Inl OverflowError"
proof -
  from assms have neg: "bits < 0" by (simp add: index_sized_def)
  then have "\<not> int (length bw) < start + bits" if "\<not> int (length bw) \<le> start"
    using that by simp
  then show ?thesis
    using assms by (auto simp: slice_step_def py_repeat_def zfill_def)
qed

lemma slice_loop_Inr:
  assumes "\<forall>w\<in>set ws. index_sized w"
  shows "slice_loop bw ws start acc = Inr (acc @ fields_from bw start ws)"
  using assms
proof (induction ws arbitrary: start acc)
  case Nil
  show ?case by simp
next
  case (Cons w ws)
  then show ?case by (simp add: slice_step_Inr)
qed

lemma slice_loop_Inl:
  assumes "\<exists>w\<in>set ws. \<not> index_sized w"
  shows "slice_loop bw ws start acc = Inl OverflowError"
  using assms
proof (induction ws arbitrary: start acc)
  case Nil
  then show ?case by simp
next
  case (Cons w ws)
  show ?case
  proof (cases "index_sized w")
    case True
    with Cons.prems have "\<exists>w\<in>set ws. \<not> index_sized w" by auto
    with Cons.IH True show ?thesis by (simp add: slice_step_Inr)
  next
    case False
    then show ?thesis by (simp add: slice_step_Inl)
  qed
qed

lemma length_fields_from: "length (fields_from bw start ws) = length ws"
  by (induction ws arbitrary: start) simp_all

text \<open>The field at position \<open>i\<close> is cut with the cursor at the sum of the widths before it.\<close>

lemma fields_from_nth:
  "i < length ws \<Longrightarrow>
   fields_from bw start ws ! i = field_at bw (start + sum_list (take i ws)) (ws ! i)"
proof (induction ws arbitrary: i start)
  case Nil
  then show ?case by simp
next
  case (Cons w ws)
  show ?case
  proof (cases i)
    case 0
    then show ?thesis by simp
  next
    case (Suc j)
    with Cons.prems have "j < length ws" by simp
    from Cons.IH [OF this, of "start + w"] Suc show ?thesis
      by (simp add: add.assoc)
  qed
qed

text \<open>
  With a cursor and a width that are not negative, the field of the loop is the field of
  the specification: the slices are plain \<open>take\<close> and \<open>drop\<close>, and \<open>zfill\<close> changes
  nothing.
\<close>

lemma field_at_spec:
  assumes "0 \<le> start" and "0 \<le> w"
  shows "field_at bw start w = slicer_field_spec bw (nat start) (nat w)"
  using assms
  apply (simp add: field_at_def slicer_field_spec_def py_slice_def
      py_slice_from_def slice_index_def zfill_pad_def Let_def)
  apply (auto simp: nat_diff_distrib nat_add_distrib min_def)
  done

lemma length_slicer_field_spec: "length (slicer_field_spec bw start w) = w"
  by (auto simp: slicer_field_spec_def)

text \<open>
  When the widths are not negative and end within the word, the fields put together are
  the part of the word the cursor has passed over.
\<close>

lemma concat_fields_from:
  assumes "0 \<le> start" and "\<forall>w\<in>set ws. 0 \<le> w"
    and "start + sum_list ws \<le> int (length bw)"
  shows "concat (fields_from bw start ws) = take (nat (sum_list ws)) (drop (nat start) bw)"
  using assms
proof (induction ws arbitrary: start)
  case Nil
  then show ?case by simp
next
  case (Cons w ws)
  have w: "0 \<le> w" and ws: "\<forall>w\<in>set ws. 0 \<le> w" using Cons.prems(2) by simp_all
  have sum: "0 \<le> sum_list ws" using ws by (simp add: sum_list_nonneg)
  have fits: "nat start + nat w \<le> length bw" using Cons.prems w sum by simp
  have step: "field_at bw start w = take (nat w) (drop (nat start) bw)"
    using fits w Cons.prems(1)
    by (auto simp: field_at_spec slicer_field_spec_def)
  have rest: "concat (fields_from bw (start + w) ws) =
      take (nat (sum_list ws)) (drop (nat (start + w)) bw)"
    using Cons.prems w by (intro Cons.IH ws) (simp_all add: add.assoc)
  have "take (nat w) (drop (nat start) bw) @ take (nat (sum_list ws)) (drop (nat start + nat w) bw)
      = take (nat w + nat (sum_list ws)) (drop (nat start) bw)"
    by (simp add: take_add add.commute)
  then show ?case
    using w sum Cons.prems(1)
    by (simp add: step rest nat_add_distrib)
qed

lemma slicer_field_spec_zeros:
  "slicer_field_spec (replicate n CHR ''0'') start w = replicate w CHR ''0''"
  by (auto simp: slicer_field_spec_def min_def simp flip: replicate_add)

lemma fields_from_zeros:
  assumes "0 \<le> start" and "\<forall>w\<in>set ws. 0 \<le> w"
  shows "fields_from (replicate n CHR ''0'') start ws = map (\<lambda>w. replicate (nat w) CHR ''0'') ws"
  using assms
proof (induction ws arbitrary: start)
  case Nil
  show ?case by simp
next
  case (Cons w ws)
  then have "0 \<le> w" "0 \<le> start + w" "\<forall>w\<in>set ws. 0 \<le> w" by simp_all
  with Cons show ?case
    by (simp add: field_at_spec slicer_field_spec_zeros)
qed

text \<open>The slicer as a whole, for widths that are not negative.\<close>

lemma slice_bits_custom_nonneg:
  assumes "\<forall>w\<in>set ws. 0 \<le> w"
  shows "slice_bits_custom bw ws = Inr (fields_from bw 0 ws)"
proof -
  from assms have "\<forall>w\<in>set ws. index_sized w" by (simp add: index_sized_nonneg)
  then show ?thesis by (simp add: slice_bits_custom_def slice_loop_Inr)
qed

text \<open>
  C1: for every bit word and every list of positive widths, the slicer does not fail and
  returns one field per width, in order; the field at position \<open>i\<close> is the field the
  specification describes for the cursor at the sum of the widths before it (all zeros
  at or past the end, the tail padded on the right with zeros when it straddles the end,
  the substring otherwise), and its length is its width.
\<close>

theorem slice_bits_custom_fields:
  assumes "\<forall>w\<in>set ws. 0 < w"
  shows "\<exists>fields. slice_bits_custom bit_word ws = Inr fields \<and> length fields = length ws \<and>
           (\<forall>i<length ws.
              fields ! i =
                slicer_field_spec bit_word (nat (sum_list (take i ws))) (nat (ws ! i)) \<and>
              int (length (fields ! i)) = ws ! i)"
proof (intro exI conjI allI impI)
  have nonneg: "\<forall>w\<in>set ws. 0 \<le> w" using assms by (auto simp: less_imp_le)
  then show "slice_bits_custom bit_word ws = Inr (fields_from bit_word 0 ws)"
    by (rule slice_bits_custom_nonneg)
  show "length (fields_from bit_word 0 ws) = length ws"
    by (rule length_fields_from)
  fix i assume i: "i < length ws"
  have pos: "0 \<le> ws ! i" using nonneg i by simp
  have "\<forall>w\<in>set (take i ws). 0 \<le> w"
    using nonneg by (auto dest!: in_set_takeD)
  then have start: "0 \<le> sum_list (take i ws)"
    by (simp add: sum_list_nonneg)
  show field: "fields_from bit_word 0 ws ! i =
      slicer_field_spec bit_word (nat (sum_list (take i ws))) (nat (ws ! i))"
    using fields_from_nth [OF i, of bit_word 0] field_at_spec [OF start pos]
    by simp
  show "int (length (fields_from bit_word 0 ws ! i)) = ws ! i"
    using pos by (simp add: field length_slicer_field_spec)
qed

theorem slice_bits_custom_fields_witness:
  "(\<exists>fields. slice_bits_custom ''101'' [2, 2] = Inr fields \<and> length fields = 2 \<and>
      fields ! 1 = slicer_field_spec ''101'' 2 2 \<and> length (fields ! 1) = 2) \<and>
   slicer_field_spec ''101'' 2 2 = ''10''"
proof -
  have h: "\<forall>w\<in>set [2, 2 :: int]. 0 < w" by simp
  from slice_bits_custom_fields [OF h, of "''101''"] obtain fields
    where a: "slice_bits_custom ''101'' [2, 2] = Inr fields"
      and b: "length fields = length [2, 2 :: int]"
      and c: "\<forall>i<length [2, 2 :: int].
        fields ! i = slicer_field_spec ''101'' (nat (sum_list (take i [2, 2]))) (nat ([2, 2] ! i)) \<and>
        int (length (fields ! i)) = [2, 2] ! i"
    by blast
  from c have f: "fields ! 1 = slicer_field_spec ''101'' 2 2 \<and> length (fields ! 1) = 2"
    by (elim allE [of _ 1]) (simp add: length_slicer_field_spec)
  have e: "slicer_field_spec ''101'' 2 2 = ''10''"
    by (simp add: slicer_field_spec_def)
  from a b f e show ?thesis by auto
qed

text \<open>
  C2 (round trip): for a token of \<open>0\<close>/\<open>1\<close> characters of length \<open>L\<close>, filling with
  zeros on the left to length \<open>L\<close> gives the token itself, and with positive widths
  whose sum is \<open>L\<close> the fields of the slicer put together are the token again.  The
  same holds for the record the row loop of \<open>process_column\<close> builds for the token, in a
  column known as binary or when the token is classified as binary.
\<close>

theorem slicer_round_trip:
  assumes "set token \<subseteq> {CHR ''0'', CHR ''1''}" and "\<forall>w\<in>set ws. 0 < w"
    and "sum_list ws = int (length token)"
  shows "zfill (int (length token)) token = Inr token
         \<and> (\<exists>fields. slice_bits_custom token ws = Inr fields \<and> concat fields = token)
         \<and> (in_binary_columns \<or> is_likely_binary token \<longrightarrow>
              (\<exists>fields.
                 process_value in_binary_columns (int (length token)) ws (Some token)
                   = Inr fields
                 \<and> concat fields = token))"
proof -
  have z: "zfill (int (length token)) token = Inr token"
    by (simp add: zfill_Inr index_sized_nonneg zfill_pad_id)
  have nonneg: "\<forall>w\<in>set ws. 0 \<le> w" using assms(2) by (auto simp: less_imp_le)
  then have "concat (fields_from token 0 ws) = take (nat (sum_list ws)) (drop (nat 0) token)"
    using assms(3) by (intro concat_fields_from) simp_all
  then have c: "concat (fields_from token 0 ws) = token"
    using assms(3) by simp
  have s: "slice_bits_custom token ws = Inr (fields_from token 0 ws)"
    using nonneg by (rule slice_bits_custom_nonneg)
  show ?thesis
    using z s c by (auto simp: process_value_def strip_bits [OF assms(1)])
qed

theorem slicer_round_trip_witness:
  "zfill 9 ''101100111'' = Inr ''101100111'' \<and>
   (\<exists>fields. slice_bits_custom ''101100111'' [4, 3, 2] = Inr fields
      \<and> concat fields = ''101100111'') \<and>
   is_likely_binary ''101100111'' \<and>
   (\<exists>fields. process_value False 9 [4, 3, 2] (Some ''101100111'') = Inr fields
      \<and> concat fields = ''101100111'')"
proof -
  have a: "set ''101100111'' \<subseteq> {CHR ''0'', CHR ''1''}" by simp
  have b: "\<forall>w\<in>set [4, 3, 2 :: int]. 0 < w" by simp
  have c: "sum_list [4, 3, 2] = int (length ''101100111'')" by simp
  have l: "int (length ''101100111'') = 9" by simp
  have d: "is_likely_binary ''101100111''" by code_simp
  from slicer_round_trip [OF a b c, of False] d show ?thesis unfolding l by blast
qed

text \<open>
  C10, amended: the slicer returns a list with one element per entry for every string and
  every list of integers that are index-sized, zero and negative entries included; as
  soon as an entry is below \<open>-2^63\<close>, the count of \<open>'0' * bits\<close> or the width of
  \<open>zfill(bits)\<close> cannot be converted and the slicer raises \<open>OverflowError\<close>.
\<close>

theorem slice_bits_custom_total:
  "(list_all index_sized ws \<longrightarrow>
      (\<exists>fields. slice_bits_custom bin_str ws = Inr fields \<and> length fields = length ws))
   \<and> (\<not> list_all index_sized ws \<longrightarrow> slice_bits_custom bin_str ws = Inl OverflowError)"
proof (intro conjI impI)
  assume "list_all index_sized ws"
  then have "slice_bits_custom bin_str ws = Inr (fields_from bin_str 0 ws)"
    by (simp add: slice_bits_custom_def slice_loop_Inr list_all_iff)
  then show "\<exists>fields. slice_bits_custom bin_str ws = Inr fields \<and> length fields = length ws"
    by (simp add: length_fields_from)
next
  assume "\<not> list_all index_sized ws"
  then have "\<exists>w\<in>set ws. \<not> index_sized w" by (simp add: list_all_iff)
  then show "slice_bits_custom bin_str ws = Inl OverflowError"
    by (simp add: slice_bits_custom_def slice_loop_Inl)
qed

theorem slice_bits_custom_total_witness:
  "list_all index_sized [0, - 3, 5]
   \<and> (\<exists>fields. slice_bits_custom ''1010'' [0, - 3, 5] = Inr fields \<and> length fields = 3)
   \<and> slice_bits_custom ''1010'' [0, - 3, 5] = Inr ['''', ''1'', ''00000'']
   \<and> \<not> list_all index_sized [- 9223372036854775809]
   \<and> slice_bits_custom ''1010'' [- 9223372036854775809] = Inl OverflowError"
proof -
  have a: "list_all index_sized [0, - 3, 5]" by (simp add: index_sized_def)
  have b: "\<not> list_all index_sized [- 9223372036854775809]" by (simp add: index_sized_def)
  have c: "slice_bits_custom ''1010'' [0, - 3, 5] = Inr ['''', ''1'', ''00000'']" by code_simp
  from slice_bits_custom_total [of "[0, - 3, 5]" "''1010''"]
    slice_bits_custom_total [of "[- 9223372036854775809]" "''1010''"] a b c
  show ?thesis by simp
qed

text \<open>
  C10 as stated fails: a width below \<open>-2^63\<close> makes \<open>zfill(bits)\<close> raise, although the
  field would be empty; and such a list can come out of \<open>parse_bit_assignments\<close> with
  the sum 32 the caller asks for.
\<close>

theorem slicer_overflow_counterexample:
  "slice_bits_custom ''1'' [- (10 ^ 30)] = Inl OverflowError
   \<and> parse_bit_assignments
         ''-1000000000000000000000000000000,1000000000000000000000000000032''
       = Inr [- (10 ^ 30), 10 ^ 30 + 32]
   \<and> sum_list [- (10 ^ 30), 10 ^ 30 + 32 :: int] = 32
   \<and> slice_bits_custom (replicate 32 CHR ''0'') [- (10 ^ 30), 10 ^ 30 + 32]
       = Inl OverflowError"
proof -
  have "parse_bit_assignments
      ''-1000000000000000000000000000000,1000000000000000000000000000032''
    = Inr [- (10 ^ 30), 10 ^ 30 + 32]"
    by code_simp
  then show ?thesis
    by (simp add: slice_bits_custom_def slice_step_Inl index_sized_def)
qed

section \<open>Properties of the classifier and the bit length\<close>

lemma binary_char_iff:
  "c \<in> set ''0123456789abcdef'' \<and> c \<notin> set ''23456789abcdef''
     \<longleftrightarrow> c = CHR ''0'' \<or> c = CHR ''1''"
  by auto

lemma only_bits_iff:
  "list_all (\<lambda>c. c \<in> set ''0123456789abcdef'') t
     \<and> \<not> list_ex (\<lambda>c. c \<in> set ''23456789abcdef'') t
     \<longleftrightarrow> set t \<subseteq> {CHR ''0'', CHR ''1''}"
proof -
  have "list_all (\<lambda>c. c \<in> set ''0123456789abcdef'') t
       \<and> \<not> list_ex (\<lambda>c. c \<in> set ''23456789abcdef'') t
     \<longleftrightarrow> (\<forall>c\<in>set t. c \<in> set ''0123456789abcdef'' \<and> c \<notin> set ''23456789abcdef'')"
    unfolding list_all_iff list_ex_iff by blast
  also have "\<dots> \<longleftrightarrow> (\<forall>c\<in>set t. c = CHR ''0'' \<or> c = CHR ''1'')"
    unfolding binary_char_iff ..
  also have "\<dots> \<longleftrightarrow> set t \<subseteq> {CHR ''0'', CHR ''1''}" by auto
  finally show ?thesis .
qed

lemma if_chain: "(if \<not> A then False else if B then False else C) \<longleftrightarrow> A \<and> \<not> B \<and> C"
  by simp

lemma is_likely_binary_spec_digits:
  "is_likely_binary token \<longleftrightarrow>
     list_all (\<lambda>c. c \<in> set ''0123456789abcdef'') (spec_digits token) \<and>
     \<not> list_ex (\<lambda>c. c \<in> set ''23456789abcdef'') (spec_digits token) \<and>
     8 < length (spec_digits token)"
  unfolding is_likely_binary_def spec_digits_def Let_def py_slice_from_2 if_chain ..

lemma is_likely_binary_strip: "is_likely_binary (strip v) = is_likely_binary v"
  by (simp add: is_likely_binary_def strip_strip)

text \<open>
  C3: the classifier answers binary exactly when the token, trimmed, in lower case and
  without a leading \<open>0x\<close>, is made of \<open>0\<close> and \<open>1\<close> only and is longer than 8; this is
  the class \<open>Binary\<close> of the specification, and a string of \<open>0\<close> and \<open>1\<close> of length 8
  or less is \<open>Hex\<close>.  The classifier is a total function: none of its operations can
  raise.
\<close>

theorem is_likely_binary_iff:
  "(is_likely_binary token \<longleftrightarrow>
      set (spec_digits token) \<subseteq> {CHR ''0'', CHR ''1''} \<and> 8 < length (spec_digits token))
   \<and> (is_likely_binary token \<longleftrightarrow> classify_spec token = Binary)
   \<and> (set (spec_digits token) \<subseteq> {CHR ''0'', CHR ''1''}
        \<and> length (spec_digits token) \<le> 8 \<longrightarrow>
        classify_spec token = Hex \<and> \<not> is_likely_binary token)"
proof -
  have a: "is_likely_binary token \<longleftrightarrow>
      set (spec_digits token) \<subseteq> {CHR ''0'', CHR ''1''} \<and> 8 < length (spec_digits token)"
    using only_bits_iff [of "spec_digits token"] is_likely_binary_spec_digits [of token]
    by blast
  have inv: "list_ex (\<lambda>c. c \<notin> set ''0123456789abcdef'') (spec_digits token) \<longleftrightarrow>
      \<not> list_all (\<lambda>c. c \<in> set ''0123456789abcdef'') (spec_digits token)"
    unfolding list_all_iff list_ex_iff by blast
  have b: "is_likely_binary token \<longleftrightarrow> classify_spec token = Binary"
    unfolding is_likely_binary_spec_digits classify_spec_def inv by auto
  have c: "set (spec_digits token) \<subseteq> {CHR ''0'', CHR ''1''}
        \<and> length (spec_digits token) \<le> 8 \<longrightarrow>
        classify_spec token = Hex \<and> \<not> is_likely_binary token"
    using a only_bits_iff [of "spec_digits token"]
    unfolding classify_spec_def inv by auto
  from a b c show ?thesis by blast
qed

lemma spec_digits_simps:
  "spec_digits ''11111111'' = ''11111111''"
  "spec_digits ''111111111'' = ''111111111''"
  "spec_digits '' 0X101010101 '' = ''101010101''"
  by code_simp+

theorem is_likely_binary_iff_witness:
  "set (spec_digits ''11111111'') \<subseteq> {CHR ''0'', CHR ''1''}
   \<and> length (spec_digits ''11111111'') \<le> 8
   \<and> classify_spec ''11111111'' = Hex \<and> \<not> is_likely_binary ''11111111''
   \<and> is_likely_binary ''111111111'' \<and> classify_spec ''111111111'' = Binary"
proof -
  have h: "set (spec_digits ''11111111'') \<subseteq> {CHR ''0'', CHR ''1''}
      \<and> length (spec_digits ''11111111'') \<le> 8"
    by (simp add: spec_digits_simps)
  have g: "set (spec_digits ''111111111'') \<subseteq> {CHR ''0'', CHR ''1''}
      \<and> 8 < length (spec_digits ''111111111'')"
    by (simp add: spec_digits_simps)
  from is_likely_binary_iff [of "''11111111''"] is_likely_binary_iff [of "''111111111''"] h g
  show ?thesis by blast
qed

text \<open>
  C6: the bit length of a token the classifier takes as binary is the length of the
  trimmed token, with the \<open>0x\<close> prefix still in it: for \<open>0x101010101\<close>, whose nine
  digits make it binary, \<open>detect_bit_length\<close> answers 11, and so does
  \<open>get_current_bit_length\<close> in \<open>main.py\<close>.
\<close>

theorem detect_bit_length_prefixed:
  "is_likely_binary ''0x101010101'' \<and> classify_spec ''0x101010101'' = Binary
   \<and> length (spec_digits ''0x101010101'') = 9
   \<and> detect_bit_length ''0x101010101'' = 11
   \<and> get_current_bit_length False [Some ''0x101010101''] = 11"
  by code_simp

text \<open>The bit length in general: 32 unless the classifier answers binary.\<close>

lemma detect_bit_length_hex: "\<not> is_likely_binary token \<Longrightarrow> detect_bit_length token = 32"
  by (simp add: detect_bit_length_def is_likely_binary_strip)

lemma detect_bit_length_no_prefix:
  assumes "is_likely_binary token" and "\<not> startswith (lower (strip token)) ''0x''"
  shows "detect_bit_length token = int (length (spec_digits token))"
  using assms
  by (simp add: detect_bit_length_def is_likely_binary_strip spec_digits_def lower_def)

lemma detect_bit_length_prefix:
  assumes "is_likely_binary token" and "startswith (lower (strip token)) ''0x''"
  shows "detect_bit_length token = int (length (spec_digits token)) + 2"
proof -
  from assms(2) have "2 \<le> length (lower (strip token))"
    by (metis startswith_def length_take min.cobounded1 length_Cons list.size(3)
        One_nat_def Suc_1)
  with assms show ?thesis
    by (simp add: detect_bit_length_def is_likely_binary_strip spec_digits_def lower_def)
qed

section \<open>Properties of the decoder\<close>

lemma hex_parse_spec_digits: "hex_parse token = py_int 16 (zfill_pad 8 (spec_digits token))"
  by (simp add: hex_parse_def spec_digits_def Let_def py_slice_from_2 zfill_Inr
      index_sized_nonneg)

lemma hex_parse_strip: "hex_parse (strip v) = hex_parse v"
  by (simp add: hex_parse_def strip_strip)

text \<open>
  The decoder never raises: \<open>zfill(32)\<close> and \<open>"0" * 32\<close> have index-sized arguments,
  and what \<open>int\<close> raises is caught.
\<close>

lemma hex_to_32bit_bin_eq:
  "hex_to_32bit_bin token =
     Inr (case hex_parse token of
            Inl e \<Rightarrow> replicate 32 CHR ''0''
          | Inr n \<Rightarrow> zfill_pad 32 (py_slice_from (py_bin n) 2))"
  by (simp add: hex_to_32bit_bin_def zfill_Inr py_repeat_Inr index_sized_nonneg
      split: sum.split)

text \<open>What the decoder returns for a token whose parsed value is not negative.\<close>

lemma hex_to_32bit_bin_nonneg:
  assumes "hex_parse token = Inr n" and "0 \<le> n"
  shows "\<exists>bits. hex_to_32bit_bin token = Inr bits
           \<and> bits = replicate (32 - length (bin_digits (nat n))) CHR ''0'' @ bin_digits (nat n)
           \<and> int (bits_value bits) = n
           \<and> set bits \<subseteq> {CHR ''0'', CHR ''1''}
           \<and> 32 \<le> length bits
           \<and> (2 ^ 32 \<le> n \<longrightarrow> 32 < length bits)"
proof -
  let ?d = "bin_digits (nat n)"
  let ?bits = "replicate (32 - length ?d) CHR ''0'' @ ?d"
  have "py_slice_from (py_bin n) 2 = ?d"
    using assms(2) by (simp add: py_bin_def py_slice_from_2)
  then have r: "hex_to_32bit_bin token = Inr ?bits"
    using assms(1) zfill_pad_bits [OF bin_digits_not_Nil set_bin_digits, of 32 "nat n"]
    by (simp add: hex_to_32bit_bin_eq)
  have v: "int (bits_value ?bits) = n"
    using assms(2) by (simp add: bits_value_zeros bits_value_bin_digits)
  have s: "set ?bits \<subseteq> {CHR ''0'', CHR ''1''}"
    using set_bin_digits [of "nat n"] by auto
  have l: "32 \<le> length ?bits" by simp
  have "32 < length ?bits" if big: "2 ^ 32 \<le> n"
  proof -
    have "(2::nat) ^ 32 \<le> nat n"
      using big by (simp add: le_nat_iff)
    moreover have "nat n < 2 ^ length ?d"
      using bits_value_less [of ?d] by (simp only: bits_value_bin_digits)
    ultimately have "(2::nat) ^ 32 < 2 ^ length ?d" by (rule le_less_trans)
    then have "32 < length ?d" by (simp only: power_strict_increasing_iff)
    then show ?thesis by simp
  qed
  with r v s l show ?thesis by blast
qed

lemma hex_to_32bit_bin_FF:
  "hex_to_32bit_bin ''FF'' = Inr (replicate 24 CHR ''0'' @ ''11111111'')"
  by code_simp

text \<open>
  C4: for a token with a minus sign \<open>int\<close> returns a negative value, \<open>bin\<close> puts the
  sign in front of \<open>0b\<close>, and cutting two characters leaves the \<open>b\<close> in the result:
  the decoder does not return the binary expansion of the value of \<open>-ff\<close>.
\<close>

theorem hex_to_32bit_bin_negative:
  "hex_parse ''-ff'' = Inr (- 255)
   \<and> hex_to_32bit_bin ''-ff'' = Inr (replicate 23 CHR ''0'' @ ''b11111111'')
   \<and> CHR ''b'' \<in> set (replicate 23 CHR ''0'' @ ''b11111111'')"
  by code_simp

text \<open>
  C5, amended: the decoder never raises, and whenever \<open>int(hex_str, 16)\<close> rejects the
  prepared token it returns exactly 32 zero characters.  Among the strings of code
  points below U+0100 this is the case for every token that, once trimmed, in lower case
  and without a leading \<open>0x\<close>, holds a character other than a hexadecimal digit, a
  sign, an underscore, \<open>x\<close> or whitespace.
\<close>

theorem hex_to_32bit_bin_fallback:
  "(\<exists>bits. hex_to_32bit_bin token = Inr bits)
   \<and> (hex_parse token = Inl e \<longrightarrow> hex_to_32bit_bin token = Inr (replicate 32 CHR ''0''))
   \<and> (list_ex (\<lambda>c. \<not> int16_char c) (spec_digits token) \<longrightarrow>
        (\<exists>e. hex_parse token = Inl e)
        \<and> hex_to_32bit_bin token = Inr (replicate 32 CHR ''0''))"
proof (intro conjI impI)
  show "\<exists>bits. hex_to_32bit_bin token = Inr bits"
    by (simp add: hex_to_32bit_bin_eq)
next
  assume "hex_parse token = Inl e"
  then show "hex_to_32bit_bin token = Inr (replicate 32 CHR ''0'')"
    by (simp add: hex_to_32bit_bin_eq)
next
  assume "list_ex (\<lambda>c. \<not> int16_char c) (spec_digits token)"
  then obtain c where c: "c \<in> set (spec_digits token)" and bad: "\<not> int16_char c"
    by (auto simp: list_ex_iff)
  from c set_zfill_pad have "c \<in> set (zfill_pad 8 (spec_digits token))" by blast
  from py_int_16_rejects [OF this bad]
  show e: "\<exists>e. hex_parse token = Inl e" by (simp add: hex_parse_spec_digits)
  then show "hex_to_32bit_bin token = Inr (replicate 32 CHR ''0'')"
    by (auto simp: hex_to_32bit_bin_eq)
qed

theorem hex_to_32bit_bin_fallback_witness:
  "list_ex (\<lambda>c. \<not> int16_char c) (spec_digits ''not-hex'')
   \<and> hex_parse ''not-hex'' = Inl (ValueError ''invalid literal for int()'')
   \<and> hex_to_32bit_bin ''not-hex'' = Inr (replicate 32 CHR ''0'')"
proof -
  have a: "list_ex (\<lambda>c. \<not> int16_char c) (spec_digits ''not-hex'')" by code_simp
  have b: "hex_parse ''not-hex'' = Inl (ValueError ''invalid literal for int()'')" by code_simp
  from hex_to_32bit_bin_fallback [of "''not-hex''" "ValueError ''invalid literal for int()''"] a b
  show ?thesis by blast
qed

text \<open>
  C5 as stated fails: a token of the class \<open>Invalid\<close> need not fail to parse: \<open>+1\<close>
  holds a character that is no hexadecimal digit, and \<open>int\<close> reads it as 1.
\<close>

theorem invalid_token_decodes_counterexample:
  "classify_spec ''+1'' = Invalid \<and> hex_parse ''+1'' = Inr 1
   \<and> hex_to_32bit_bin ''+1'' = Inr (replicate 31 CHR ''0'' @ ''1'')
   \<and> hex_to_32bit_bin ''+1'' \<noteq> Inr (replicate 32 CHR ''0'')"
  by code_simp

text \<open>
  The whitespace beyond ASCII: a no-break space around the token is trimmed, and one
  after the prefix is skipped by \<open>int\<close>.
\<close>

lemma hex_to_32bit_bin_nbsp:
  "hex_to_32bit_bin (CHR 0xA0 # ''ff'') = Inr (replicate 24 CHR ''0'' @ ''11111111'')"
  "hex_parse (''0x'' @ [CHR 0xA0] @ ''1234567'') = Inr 19088743"
  by code_simp+

section \<open>Properties of the row loop\<close>

text \<open>
  When the loop ends without exception, every row of the result is the record of the
  cell at the same position.
\<close>

lemma process_rows_nth:
  assumes "process_rows in_binary_columns expected_bits ws vals = Inr new_rows"
  shows "length new_rows = length vals"
    and "i < length vals \<Longrightarrow>
         process_value in_binary_columns expected_bits ws (vals ! i) = Inr (new_rows ! i)"
  using assms
proof (induction vals arbitrary: new_rows i)
  case Nil
  {
    case 1
    then show ?case by simp
  next
    case 2
    then show ?case by simp
  }
next
  case (Cons val vals)
  {
    case 1
    then show ?case
      using Cons.IH(1) by (auto split: sum.splits)
  next
    case 2
    then show ?case
      using Cons.IH(2) by (cases i) (auto split: sum.splits)
  }
qed

text \<open>The empty token decodes as the value 0.\<close>

lemma hex_to_32bit_bin_empty: "hex_to_32bit_bin [] = Inr (replicate 32 CHR ''0'')"
  by code_simp

lemma is_likely_binary_empty: "\<not> is_likely_binary []"
  by code_simp

text \<open>
  C7, amended: a cell that is missing when the row loop reads it gives one empty string
  per width.  In a column not known as binary, a present token that is empty once
  trimmed, or that is not classified as binary and that \<open>int(hex_str, 16)\<close> rejects,
  is sliced from 32 zero characters (the value 0, or the fallback): with positive widths
  every field is made of as many zero characters as its width, and the record differs
  from the one of a missing cell as soon as there is a width.
\<close>

theorem process_value_missing_or_rejected:
  "process_value in_binary_columns expected_bits ws None = Inr (replicate (length ws) [])
   \<and> (strip v = [] \<or> \<not> is_likely_binary v \<and> hex_parse v = Inl e \<longrightarrow>
        process_value False expected_bits ws (Some v)
          = slice_bits_custom (replicate 32 CHR ''0'') ws
        \<and> ((\<forall>w\<in>set ws. 0 < w) \<longrightarrow>
              process_value False expected_bits ws (Some v)
                = Inr (map (\<lambda>w. replicate (nat w) CHR ''0'') ws)
              \<and> (ws \<noteq> [] \<longrightarrow>
                    process_value False expected_bits ws (Some v)
                      \<noteq> process_value False expected_bits ws None)))"
proof (intro conjI impI)
  show none: "process_value in_binary_columns expected_bits ws None
      = Inr (replicate (length ws) [])"
    by (simp add: process_value_def)
next
  assume a: "strip v = [] \<or> \<not> is_likely_binary v \<and> hex_parse v = Inl e"
  then show z: "process_value False expected_bits ws (Some v)
      = slice_bits_custom (replicate 32 CHR ''0'') ws"
  proof
    assume "strip v = []"
    then show ?thesis
      by (simp add: process_value_def is_likely_binary_empty hex_to_32bit_bin_empty)
  next
    assume "\<not> is_likely_binary v \<and> hex_parse v = Inl e"
    then show ?thesis
      by (simp add: process_value_def is_likely_binary_strip hex_to_32bit_bin_eq
          hex_parse_strip)
  qed
  assume pos: "\<forall>w\<in>set ws. 0 < w"
  then have nonneg: "\<forall>w\<in>set ws. 0 \<le> w" by (auto simp: less_imp_le)
  then show m: "process_value False expected_bits ws (Some v)
      = Inr (map (\<lambda>w. replicate (nat w) CHR ''0'') ws)"
    by (simp add: z slice_bits_custom_nonneg fields_from_zeros)
  assume "ws \<noteq> []"
  then obtain w ws' where ws: "ws = w # ws'" by (cases ws) auto
  with pos have "replicate (nat w) CHR ''0'' \<noteq> []" by simp
  then have "map (\<lambda>w. replicate (nat w) CHR ''0'') ws \<noteq> replicate (length ws) []"
    by (simp add: ws)
  then show "process_value False expected_bits ws (Some v)
      \<noteq> process_value False expected_bits ws None"
    unfolding m by (simp add: process_value_def)
qed

theorem process_value_missing_or_rejected_witness:
  "process_value False 32 [8, 8, 8, 8] None = Inr ['''', '''', '''', '''']
   \<and> \<not> is_likely_binary ''not-hex''
   \<and> hex_parse ''not-hex'' = Inl (ValueError ''invalid literal for int()'')
   \<and> process_value False 32 [8, 8, 8, 8] (Some ''not-hex'')
       = Inr [''00000000'', ''00000000'', ''00000000'', ''00000000'']
   \<and> process_value False 32 [8, 8, 8, 8] (Some ''not-hex'')
       \<noteq> process_value False 32 [8, 8, 8, 8] None"
proof -
  have a: "\<not> is_likely_binary ''not-hex''" by code_simp
  have b: "hex_parse ''not-hex'' = Inl (ValueError ''invalid literal for int()'')" by code_simp
  have c: "\<forall>w\<in>set [8, 8, 8, 8 :: int]. 0 < w" by simp
  have d: "[8, 8, 8, 8 :: int] \<noteq> []" by simp
  have e: "replicate (length [8, 8, 8, 8 :: int]) [] = ['''', '''', '''', '''']" by simp
  have f: "map (\<lambda>w. replicate (nat w) CHR ''0'') [8, 8, 8, 8]
      = [''00000000'', ''00000000'', ''00000000'', ''00000000'']" by (simp add: eval_nat_numeral)
  from process_value_missing_or_rejected
    [of False 32 "[8, 8, 8, 8]" "''not-hex''" "ValueError ''invalid literal for int()''"]
    a b c d
  show ?thesis unfolding e f by blast
qed

text \<open>
  C7 as stated fails: a present but empty token, or one of whitespace only, is not a
  missing cell: it decodes as the value 0 and gives fields of zero characters.  And a
  present token of the class \<open>Invalid\<close> can give a field that is not zero.
\<close>

theorem empty_token_zero_filled_counterexample:
  "process_value False 32 [8, 8, 8, 8] (Some '''')
     = Inr [''00000000'', ''00000000'', ''00000000'', ''00000000'']
   \<and> process_value False 32 [8, 8, 8, 8] (Some ''  '')
     = Inr [''00000000'', ''00000000'', ''00000000'', ''00000000'']
   \<and> classify_spec ''+1'' = Invalid
   \<and> process_value False 32 [8, 8, 8, 8] (Some ''+1'')
     = Inr [''00000000'', ''00000000'', ''00000000'', ''00000001'']"
  by code_simp

section \<open>Properties of the assignment planner\<close>

lemma parse_parts_spec:
  "parse_parts parts =
     (if list_ex (\<lambda>p. \<not> valid_integer p) (filter (\<lambda>p. p \<noteq> []) (map strip parts))
      then Inl (ValueError ''invalid literal for int()'')
      else Inr (map integer_of (filter (\<lambda>p. p \<noteq> []) (map strip parts))))"
proof (induction parts)
  case Nil
  show ?case by simp
next
  case (Cons p parts)
  show ?case
  proof (cases "strip p = []")
    case True
    with Cons show ?thesis by simp
  next
    case False
    show ?thesis
    proof (cases "py_int 10 (strip p)")
      case (Inl e)
      with False py_int_error [OF Inl] show ?thesis
        by (simp add: valid_integer_def)
    next
      case (Inr n)
      with False Cons show ?thesis
        by (simp add: valid_integer_def integer_of_def)
    qed
  qed
qed

text \<open>Width-spec parsing in one equation, in the words of the specification.\<close>

lemma parse_bit_assignments_eq:
  "parse_bit_assignments spec =
     (if list_ex (\<lambda>p. \<not> valid_integer p) (spec_pieces spec)
      then Inl (ValueError ''Invalid bit assignments. Please use comma-separated integers.'')
      else Inr (map integer_of (spec_pieces spec)))"
proof -
  have "filter (\<lambda>p. p \<noteq> []) (map strip (py_split CHR '','' (strip spec))) = spec_pieces spec"
    by (simp add: spec_pieces_def map_strip_split_strip)
  then show ?thesis
    by (simp add: parse_bit_assignments_def parse_parts_spec)
qed

text \<open>
  C8: width-spec parsing returns the values of the non-empty trimmed pieces of the spec
  string, in order, when each of them is a valid integer; it raises the error with the
  message asking for comma-separated integers if and only if some non-empty trimmed piece
  is not a valid integer, and then there is no list at all.  \<open>8,8,8,8\<close> gives
  \<open>[8, 8, 8, 8]\<close> and \<open>a,b\<close> the error.
\<close>

theorem parse_bit_assignments_spec:
  "(list_ex (\<lambda>p. \<not> valid_integer p) (spec_pieces spec) \<longrightarrow>
      parse_bit_assignments spec =
        Inl (ValueError ''Invalid bit assignments. Please use comma-separated integers.''))
   \<and> (\<not> list_ex (\<lambda>p. \<not> valid_integer p) (spec_pieces spec) \<longrightarrow>
      parse_bit_assignments spec = Inr (map integer_of (spec_pieces spec)))
   \<and> ((\<exists>e. parse_bit_assignments spec = Inl e) \<longleftrightarrow>
        list_ex (\<lambda>p. \<not> valid_integer p) (spec_pieces spec))"
  by (simp add: parse_bit_assignments_eq)

theorem parse_bit_assignments_spec_witness:
  "spec_pieces ''a,b'' = [''a'', ''b''] \<and> list_ex (\<lambda>p. \<not> valid_integer p) (spec_pieces ''a,b'')
   \<and> parse_bit_assignments ''a,b'' =
        Inl (ValueError ''Invalid bit assignments. Please use comma-separated integers.'')
   \<and> spec_pieces ''8,8,8,8'' = [''8'', ''8'', ''8'', ''8'']
   \<and> \<not> list_ex (\<lambda>p. \<not> valid_integer p) (spec_pieces ''8,8,8,8'')
   \<and> parse_bit_assignments ''8,8,8,8'' = Inr [8, 8, 8, 8]"
proof -
  have a: "spec_pieces ''a,b'' = [''a'', ''b'']" by code_simp
  have b: "list_ex (\<lambda>p. \<not> valid_integer p) (spec_pieces ''a,b'')" by code_simp
  have c: "spec_pieces ''8,8,8,8'' = [''8'', ''8'', ''8'', ''8'']" by code_simp
  have d: "\<not> list_ex (\<lambda>p. \<not> valid_integer p) (spec_pieces ''8,8,8,8'')" by code_simp
  have e: "map integer_of (spec_pieces ''8,8,8,8'') = [8, 8, 8, 8]" by code_simp
  from parse_bit_assignments_spec [of "''a,b''"] parse_bit_assignments_spec [of "''8,8,8,8''"]
    a b c d
  show ?thesis unfolding e by blast
qed

text \<open>
  C9, amended: with a slice size of at least 1, the uniform mode returns a list of widths
  and each of them is at least 1 and at most the slice size, whatever the bit length.
  The custom mode returns the values of the pieces of the input as they are written,
  whatever their sign (or nothing when a piece is no valid integer).
\<close>

theorem get_bit_assignments_widths:
  "(1 \<le> slice_size \<longrightarrow>
      (\<exists>ws. get_bit_assignments True slice_size bit_length text = Inr (Some ws)
            \<and> (\<forall>w\<in>set ws. 1 \<le> w \<and> w \<le> slice_size)))
   \<and> get_bit_assignments False slice_size bit_length text =
        (if list_ex (\<lambda>p. \<not> valid_integer p) (spec_pieces text) then Inr None
         else Inr (Some (map integer_of (spec_pieces text))))"
proof (intro conjI impI)
  assume s: "1 \<le> slice_size"
  from py_range_pos [OF s, of bit_length] obtain "is"
    where r: "py_range 0 bit_length slice_size = Inr is"
      and b: "\<forall>i\<in>set is. 0 \<le> i \<and> i < bit_length"
    by blast
  have "\<forall>w\<in>set (map (\<lambda>i. min slice_size (bit_length - i)) is). 1 \<le> w \<and> w \<le> slice_size"
    using s b by auto
  then show "\<exists>ws. get_bit_assignments True slice_size bit_length text = Inr (Some ws)
            \<and> (\<forall>w\<in>set ws. 1 \<le> w \<and> w \<le> slice_size)"
    by (simp add: get_bit_assignments_def r)
next
  show "get_bit_assignments False slice_size bit_length text =
        (if list_ex (\<lambda>p. \<not> valid_integer p) (spec_pieces text) then Inr None
         else Inr (Some (map integer_of (spec_pieces text))))"
    by (simp add: get_bit_assignments_def parse_bit_assignments_eq)
qed

theorem get_bit_assignments_widths_witness:
  "(1::int) \<le> 4
   \<and> (\<exists>ws. get_bit_assignments True 4 10 ''8,-8'' = Inr (Some ws) \<and> list_all (\<lambda>w. 1 \<le> w \<and> w \<le> 4) ws)
   \<and> get_bit_assignments True 4 10 ''8,-8'' = Inr (Some [4, 4, 2])
   \<and> get_bit_assignments False 4 10 ''8,-8'' = Inr (Some [8, - 8])"
proof -
  have h: "(1::int) \<le> 4" by simp
  have e: "get_bit_assignments True 4 10 ''8,-8'' = Inr (Some [4, 4, 2])" by code_simp
  have v: "\<not> list_ex (\<lambda>p. \<not> valid_integer p) (spec_pieces ''8,-8'')" by code_simp
  have m: "map integer_of (spec_pieces ''8,-8'') = [8, - 8]" by code_simp
  note t = get_bit_assignments_widths [of 4 10 "''8,-8''"]
  from t h have "\<exists>ws. get_bit_assignments True 4 10 ''8,-8'' = Inr (Some ws)
      \<and> list_all (\<lambda>w. 1 \<le> w \<and> w \<le> 4) ws"
    unfolding list_all_iff by blast
  moreover from t v have "get_bit_assignments False 4 10 ''8,-8'' = Inr (Some [8, - 8])"
    unfolding m by simp
  ultimately show ?thesis using h e by blast
qed

text \<open>
  C9 as stated fails: explicit parsing returns the integers as they are written, zero and
  negative ones included, and here their sum is even the bit length 32.
\<close>

theorem explicit_widths_not_positive_counterexample:
  "parse_bit_assignments ''0,-3,35'' = Inr [0, - 3, 35]
   \<and> get_bit_assignments False 4 32 ''0,-3,35'' = Inr (Some [0, - 3, 35])
   \<and> sum_list [0, - 3, 35 :: int] = 32"
  by code_simp

end
